theory Spec2Isabelle
  imports Complex_Main "HOL-Library.Word"
begin

section \<open>Heightmap import: the data and the engine's facilities\<close>

text \<open>
  The development follows \<^verbatim>\<open>GenerateLandscape\<close> of \<^verbatim>\<open>generation.cpp\<close>.
  Samples are \<^verbatim>\<open>uint16\<close>, file bytes \<^verbatim>\<open>uint8\<close>. Every \<^verbatim>\<open>int32\<close> of the source is
  an \<open>int\<close> here, and every arithmetic result the source stores in an \<^verbatim>\<open>int32\<close> goes
  through \<open>int32\<close>, the two's complement wrap-around to 32 bits.
\<close>

type_synonym uint8 = "8 word"
type_synonym uint16 = "16 word"

definition int32 :: "int \<Rightarrow> int" where
  "int32 x = (x + 2 ^ 31) mod 2 ^ 32 - 2 ^ 31"

text \<open>The conversion of an \<^verbatim>\<open>int32\<close> argument to a \<^verbatim>\<open>uint32\<close> parameter.\<close>

definition uint32 :: "int \<Rightarrow> nat" where
  "uint32 x = nat (x mod 2 ^ 32)"

text \<open>
  What stops the function before it has built a landscape. The first four are the
  source's own early returns (lines 8, 17, 26, 62); \<open>SpawnFailed\<close> is the return of
  line 104. \<open>RangeCheckFailed\<close> is the engine's checked \<^verbatim>\<open>TArray::operator[]\<close> and
  \<^verbatim>\<open>TArray::SetNum\<close> refusing an index or a count outside the array (a fatal assertion
  of the editor build).
\<close>

datatype failure =
    NoWorld
  | LoadFileFailed
  | ImageWrapperFailed
  | GetRawFailed
  | SpawnFailed
  | RangeCheckFailed

subsection \<open>Rounding up to a power of two\<close>

text \<open>
  Modelled from the spec: \<^verbatim>\<open>FMath::RoundUpToPowerOfTwo\<close> is a function of the engine and
  is not part of the repository. The spec calls it \<^verbatim>\<open>nextPowerOfTwo\<close>: it rounds its
  argument up to the nearest power of two (512 stays 512, 300 becomes 512). \<open>pow2_from\<close>
  doubles a candidate until it reaches the argument.
\<close>

function pow2_from :: "nat \<Rightarrow> nat \<Rightarrow> nat" where
  "pow2_from p w = (if w \<le> p \<or> p = 0 then p else pow2_from (2 * p) w)"
  by pat_completeness auto
termination
  by (relation "measure (\<lambda>(p, w). w - p)") auto

declare pow2_from.simps [simp del]

definition RoundUpToPowerOfTwo :: "nat \<Rightarrow> nat" where
  "RoundUpToPowerOfTwo w = pow2_from 1 w"

subsection \<open>The decoded image and the arrays\<close>

text \<open>
  The image wrapper after a successful \<^verbatim>\<open>SetCompressed\<close>: its width, its height, and what
  \<^verbatim>\<open>GetRaw(ERGBFormat::Gray, 16, RawImageData)\<close> yields, \<open>None\<close> when it returns false. The
  raw bytes are given as the \<^verbatim>\<open>uint16\<close> sequence that the source's \<^verbatim>\<open>reinterpret_cast\<close>
  reads them as.
\<close>

record IImageWrapper =
  GetWidth :: int
  GetHeight :: int
  GetRaw :: "uint16 list option"

text \<open>\<^verbatim>\<open>HeightData.SetNum(n)\<close> followed by \<^verbatim>\<open>FMemory::Memzero\<close> over the whole array.\<close>

definition SetNum_Memzero :: "int \<Rightarrow> failure + uint16 list" where
  "SetNum_Memzero n = (if n < 0 then Inl RangeCheckFailed else Inr (replicate (nat n) 0))"

text \<open>\<^verbatim>\<open>HeightData[i] = v\<close>: the engine checks \<open>0 \<le> i < Num\<close>.\<close>

definition TArray_set :: "uint16 list \<Rightarrow> int \<Rightarrow> uint16 \<Rightarrow> failure + uint16 list" where
  "TArray_set A i v =
     (if 0 \<le> i \<and> i < int (length A) then Inr (A[nat i := v]) else Inl RangeCheckFailed)"

text \<open>
  \<^verbatim>\<open>SrcData[i]\<close>: a read through a raw pointer, with no check. Inside the decoded buffer
  it yields the sample. Outside, the read goes on and yields whatever the memory of the
  process holds there: \<open>mem i\<close>, with \<open>i\<close> counted in \<^verbatim>\<open>uint16\<close> cells from the start of the
  buffer.
\<close>

definition SrcData_read :: "(int \<Rightarrow> uint16) \<Rightarrow> uint16 list \<Rightarrow> int \<Rightarrow> uint16" where
  "SrcData_read mem SrcData i =
     (if 0 \<le> i \<and> i < int (length SrcData) then SrcData ! nat i else mem i)"

section \<open>The copy loops (lines 46 to 57)\<close>

text \<open>
  The inner loop \<^verbatim>\<open>for (X = ...; X < OriginalSizeX; X++)\<close> of row \<open>Y\<close>, started at \<open>X\<close>,
  with the statement
  \<^verbatim>\<open>HeightData[Y * SizeX + X] = SrcData[Y * OriginalSizeX + X]\<close>.
\<close>

function copy_row ::
  "(int \<Rightarrow> uint16) \<Rightarrow> uint16 list \<Rightarrow> int \<Rightarrow> int \<Rightarrow> int \<Rightarrow> int \<Rightarrow> uint16 list \<Rightarrow>
     failure + uint16 list" where
  "copy_row mem SrcData OriginalSizeX SizeX Y X HeightData =
     (if X < OriginalSizeX then
        (case TArray_set HeightData (int32 (int32 (Y * SizeX) + X))
                (SrcData_read mem SrcData (int32 (int32 (Y * OriginalSizeX) + X))) of
           Inl e \<Rightarrow> Inl e
         | Inr HeightData' \<Rightarrow>
             copy_row mem SrcData OriginalSizeX SizeX Y (X + 1) HeightData')
      else Inr HeightData)"
  by pat_completeness auto
termination
  by (relation "measure (\<lambda>(M, S, W, Z, Y, X, H). nat (W - X))") auto

declare copy_row.simps [simp del]

text \<open>The outer loop \<^verbatim>\<open>for (Y = ...; Y < OriginalSizeY; Y++)\<close>, started at \<open>Y\<close>.\<close>

function copy_rows ::
  "(int \<Rightarrow> uint16) \<Rightarrow> uint16 list \<Rightarrow> int \<Rightarrow> int \<Rightarrow> int \<Rightarrow> int \<Rightarrow> uint16 list \<Rightarrow>
     failure + uint16 list" where
  "copy_rows mem SrcData OriginalSizeX OriginalSizeY SizeX Y HeightData =
     (if Y < OriginalSizeY then
        (case copy_row mem SrcData OriginalSizeX SizeX Y 0 HeightData of
           Inl e \<Rightarrow> Inl e
         | Inr HeightData' \<Rightarrow>
             copy_rows mem SrcData OriginalSizeX OriginalSizeY SizeX (Y + 1) HeightData')
      else Inr HeightData)"
  by pat_completeness auto
termination
  by (relation "measure (\<lambda>(M, S, W, H, Z, Y, A). nat (H - Y))") auto

declare copy_rows.simps [simp del]

text \<open>
  Lines 30 to 35: the sizes. The width goes to the engine as a \<^verbatim>\<open>uint32\<close>, and \<open>SizeX\<close>
  is the engine's unsigned result stored in an \<^verbatim>\<open>int32\<close>; \<open>SizeY\<close> is \<open>SizeX\<close>
  (\<^verbatim>\<open>// Keep it square\<close>).
\<close>

definition SizeX :: "IImageWrapper \<Rightarrow> int" where
  "SizeX img = int32 (int (RoundUpToPowerOfTwo (uint32 (GetWidth img))))"

definition SizeY :: "IImageWrapper \<Rightarrow> int" where
  "SizeY img = SizeX img"

text \<open>
  Lines 41 to 63: the height data, given the raw samples. The array is sized
  \<^verbatim>\<open>SizeX * SizeY\<close>, zeroed, and filled by the two loops.
\<close>

definition resize_samples ::
  "(int \<Rightarrow> uint16) \<Rightarrow> IImageWrapper \<Rightarrow> uint16 list \<Rightarrow> failure + uint16 list" where
  "resize_samples mem img SrcData =
     (case SetNum_Memzero (int32 (SizeX img * SizeY img)) of
        Inl e \<Rightarrow> Inl e
      | Inr HeightData \<Rightarrow>
          copy_rows mem SrcData (GetWidth img) (GetHeight img) (SizeX img) 0 HeightData)"

definition resize :: "(int \<Rightarrow> uint16) \<Rightarrow> IImageWrapper \<Rightarrow> failure + uint16 list" where
  "resize mem img =
     (case GetRaw img of
        None \<Rightarrow> Inl GetRawFailed
      | Some SrcData \<Rightarrow> resize_samples mem img SrcData)"

text \<open>
  A decoded image as the decoder hands it over: positive sizes, one sample per pixel in
  row-major order, and a raw buffer of two bytes per sample that fits the
  \<^verbatim>\<open>TArray<uint8>\<close> it is returned in (an \<^verbatim>\<open>int32\<close> count).
\<close>

definition decoded :: "IImageWrapper \<Rightarrow> uint16 list \<Rightarrow> bool" where
  "decoded img SrcData \<longleftrightarrow>
     0 < GetWidth img \<and> 0 < GetHeight img \<and>
     GetRaw img = Some SrcData \<and>
     int (length SrcData) = GetWidth img * GetHeight img \<and>
     2 * (GetWidth img * GetHeight img) < 2 ^ 31"

section \<open>Terrain parameters and scales (lines 66 to 80)\<close>

text \<open>
  \<^verbatim>\<open>FMath::Max(63, SizeX - 1)\<close>, the subsection size and the subsection count. The
  argument is the side of the grid, the source's \<^verbatim>\<open>SizeX\<close>.
\<close>

definition ComponentQuads :: "int \<Rightarrow> int" where
  "ComponentQuads size_x = max 63 (int32 (size_x - 1))"

definition SubsectionQuads :: "int \<Rightarrow> int" where
  "SubsectionQuads size_x = ComponentQuads size_x"

definition NumSubsections :: int where
  "NumSubsections = 1"

text \<open>
  The source computes the scales in \<^verbatim>\<open>float\<close>. The single-precision operations it uses
  belong to the platform and the engine, so they are a parameter: \<open>'f\<close> is the type of
  \<^verbatim>\<open>float\<close> values, \<open>FloatLiteral\<close> a literal with an integral value (\<^verbatim>\<open>50000.0f\<close>,
  \<^verbatim>\<open>25.0f\<close>), \<open>FloatOfInt32\<close> the conversion of an \<^verbatim>\<open>int32\<close> (the \<^verbatim>\<open>static_cast\<close> and the
  implicit conversion of \<^verbatim>\<open>float * int32\<close>).
\<close>

record 'f float_ops =
  FloatLiteral :: "int \<Rightarrow> 'f"
  FloatOfInt32 :: "int \<Rightarrow> 'f"
  FMath_Sqrt :: "'f \<Rightarrow> 'f"
  FMath_RoundToInt :: "'f \<Rightarrow> int"
  FloatMul :: "'f \<Rightarrow> 'f \<Rightarrow> 'f"
  FloatDiv :: "'f \<Rightarrow> 'f \<Rightarrow> 'f"

definition BlockSizeInUnrealUnits :: "'f float_ops \<Rightarrow> 'f" where
  "BlockSizeInUnrealUnits fp = FloatLiteral fp 50000"

definition GridSize :: "'f float_ops \<Rightarrow> int \<Rightarrow> int" where
  "GridSize fp NumBlocks = FMath_RoundToInt fp (FMath_Sqrt fp (FloatOfInt32 fp NumBlocks))"

definition TotalSizeInUnrealUnits :: "'f float_ops \<Rightarrow> int \<Rightarrow> 'f" where
  "TotalSizeInUnrealUnits fp NumBlocks =
     FloatMul fp (BlockSizeInUnrealUnits fp) (FloatOfInt32 fp (GridSize fp NumBlocks))"

definition HorizontalScaleFactor :: "'f float_ops \<Rightarrow> int \<Rightarrow> int \<Rightarrow> 'f" where
  "HorizontalScaleFactor fp size_x NumBlocks =
     FloatDiv fp (TotalSizeInUnrealUnits fp NumBlocks) (FloatOfInt32 fp size_x)"

definition DesiredScale :: "'f float_ops \<Rightarrow> 'f" where
  "DesiredScale fp = FloatLiteral fp 25"

definition VerticalScaleFactor :: "'f float_ops \<Rightarrow> 'f" where
  "VerticalScaleFactor fp = DesiredScale fp"

section \<open>The whole function\<close>

text \<open>
  The engine as the function sees it (the editor build, \<^verbatim>\<open>WITH_EDITOR\<close>): the file
  system behind \<^verbatim>\<open>FFileHelper::LoadFileToArray\<close>, whether \<^verbatim>\<open>CreateImageWrapper\<close> hands out a
  valid wrapper, what \<^verbatim>\<open>SetCompressed\<close> makes of the file's bytes (\<open>None\<close> when it returns
  false), the identifier that \<^verbatim>\<open>FGuid::NewGuid()\<close> draws, and what the memory of the
  process holds around the raw image buffer. The world says whether \<^verbatim>\<open>SpawnActor\<close> yields
  an actor; a null \<^verbatim>\<open>World\<close> pointer is \<open>None\<close>.
\<close>

record Host =
  LoadFileToArray :: "string \<Rightarrow> uint8 list option"
  CreateImageWrapper_IsValid :: bool
  SetCompressed :: "uint8 list \<Rightarrow> IImageWrapper option"
  NewGuid :: nat
  Memory :: "int \<Rightarrow> uint16"

record UWorld =
  SpawnActor :: bool

text \<open>The landscape actor as line 128 leaves it: its configuration and what \<^verbatim>\<open>Import\<close> received.\<close>

record 'f ALandscape =
  ComponentSizeQuads :: int
  SubsectionSizeQuads :: int
  Landscape_NumSubsections :: int
  ActorScale3D :: "'f \<times> 'f \<times> 'f"
  Import_Guid :: nat
  Import_MinX :: int
  Import_MinY :: int
  Import_MaxX :: int
  Import_MaxY :: int
  Import_NumSubsections :: int
  Import_SubsectionSizeQuads :: int
  Import_HeightData :: "uint16 list"

text \<open>What the function asks of the engine, in the order it asks, with its log lines.\<close>

datatype host_call =
    Call_LoadFileToArray string
  | Call_CreateImageWrapper
  | Call_SetCompressed "uint8 list"
  | Call_GetRaw
  | Call_SpawnActor
  | Call_SetActorScale3D
  | Call_Import
  | Call_CreateLandscapeInfo
  | Log_Error string
  | Log_Info string

fun is_Log_Error :: "host_call \<Rightarrow> bool" where
  "is_Log_Error (Log_Error m) = True"
| "is_Log_Error c = False"

text \<open>Lines 20 to 23: the wrapper; \<^verbatim>\<open>SetCompressed\<close> is not reached with an invalid one.\<close>

definition open_image :: "Host \<Rightarrow> uint8 list \<Rightarrow> host_call list \<times> IImageWrapper option" where
  "open_image host RawFileData =
     (if CreateImageWrapper_IsValid host
      then ([Call_CreateImageWrapper, Call_SetCompressed RawFileData],
            SetCompressed host RawFileData)
      else ([Call_CreateImageWrapper], None))"

text \<open>Lines 66 to 126: the actor configured from the image, the grid and the block count.\<close>

definition configure_landscape ::
  "'f float_ops \<Rightarrow> Host \<Rightarrow> IImageWrapper \<Rightarrow> uint16 list \<Rightarrow> int \<Rightarrow> 'f ALandscape" where
  "configure_landscape fp host ImageWrapper HeightData NumBlocks =
     \<lparr>ComponentSizeQuads = ComponentQuads (SizeX ImageWrapper),
      SubsectionSizeQuads = SubsectionQuads (SizeX ImageWrapper),
      Landscape_NumSubsections = NumSubsections,
      ActorScale3D =
        (HorizontalScaleFactor fp (SizeX ImageWrapper) NumBlocks,
         HorizontalScaleFactor fp (SizeX ImageWrapper) NumBlocks,
         VerticalScaleFactor fp),
      Import_Guid = NewGuid host,
      Import_MinX = 0,
      Import_MinY = 0,
      Import_MaxX = int32 (SizeX ImageWrapper - 1),
      Import_MaxY = int32 (SizeY ImageWrapper - 1),
      Import_NumSubsections = NumSubsections,
      Import_SubsectionSizeQuads = SubsectionQuads (SizeX ImageWrapper),
      Import_HeightData = HeightData\<rparr>"

text \<open>
  \<^verbatim>\<open>GenerateLandscape\<close>. The result is the list of engine calls and log lines made, and
  either the reason the function stopped or the landscape it built.
\<close>

definition GenerateLandscape ::
  "'f float_ops \<Rightarrow> Host \<Rightarrow> string \<Rightarrow> UWorld option \<Rightarrow> int \<Rightarrow>
     host_call list \<times> (failure + 'f ALandscape)" where
  "GenerateLandscape fp host CombinedAbsoluteFilePath World NumBlocks =
     (case World of
        None \<Rightarrow> ([], Inl NoWorld)
      | Some world \<Rightarrow>
         (case LoadFileToArray host CombinedAbsoluteFilePath of
            None \<Rightarrow>
              ([Call_LoadFileToArray CombinedAbsoluteFilePath,
                Log_Error ''Failed to load height map file''],
               Inl LoadFileFailed)
          | Some RawFileData \<Rightarrow>
             (case open_image host RawFileData of
                (calls, None) \<Rightarrow>
                  (Call_LoadFileToArray CombinedAbsoluteFilePath # calls @
                     [Log_Error ''Failed to create image wrapper for height map''],
                   Inl ImageWrapperFailed)
              | (calls, Some ImageWrapper) \<Rightarrow>
                 (case resize (Memory host) ImageWrapper of
                    Inl e \<Rightarrow>
                      (Call_LoadFileToArray CombinedAbsoluteFilePath # calls @
                         [Log_Info ''Original size, adjusted to power of two'', Call_GetRaw] @
                         (if e = GetRawFailed
                          then [Log_Error ''Failed to get raw height map data''] else []),
                       Inl e)
                  | Inr HeightData \<Rightarrow>
                     (if SpawnActor world
                      then
                        (Call_LoadFileToArray CombinedAbsoluteFilePath # calls @
                           [Log_Info ''Original size, adjusted to power of two'', Call_GetRaw,
                            Log_Info ''Horizontal Scale, Vertical Scale'',
                            Call_SpawnActor, Call_SetActorScale3D, Call_Import,
                            Call_CreateLandscapeInfo,
                            Log_Info ''Created landscape with dimensions''],
                         Inr (configure_landscape fp host ImageWrapper HeightData NumBlocks))
                      else
                        (Call_LoadFileToArray CombinedAbsoluteFilePath # calls @
                           [Log_Info ''Original size, adjusted to power of two'', Call_GetRaw,
                            Log_Info ''Horizontal Scale, Vertical Scale'',
                            Call_SpawnActor],
                         Inl SpawnFailed))))))"

text \<open>
  The values the function computes for the terrain: the height grid, the component and
  subsection sizes, the subsection count, and the horizontal and vertical scales.
\<close>

definition terrain_values ::
  "'f ALandscape \<Rightarrow> uint16 list \<times> int \<times> int \<times> int \<times> 'f \<times> 'f" where
  "terrain_values L =
     (Import_HeightData L, ComponentSizeQuads L, SubsectionSizeQuads L,
      Landscape_NumSubsections L, fst (ActorScale3D L), snd (snd (ActorScale3D L)))"

section \<open>Single precision\<close>

text \<open>
  Modelled from the spec: the scales are \<^verbatim>\<open>float\<close> values, and the engine functions
  \<^verbatim>\<open>FMath::Sqrt\<close> and \<^verbatim>\<open>FMath::RoundToInt\<close> are not part of the repository; the spec calls the
  second one nearest-integer rounding. The instance \<open>f32_ops\<close> takes \<^verbatim>\<open>float\<close> as IEEE 754
  binary32 with rounding to nearest, ties to even. A finite \<^verbatim>\<open>float\<close> is the real number it
  denotes, and \<open>f32 x\<close> is the binary32 value nearest to the real \<open>x\<close>: the exponent of \<open>x\<close>
  (not below the subnormal range), the spacing of binary32 values there, and \<open>x\<close> rounded
  to a multiple of that spacing. Infinities and NaN are not represented; the values of
  the runs considered are positive and stay far below the largest finite value.
\<close>

definition round_even :: "real \<Rightarrow> int" where
  "round_even q =
     (if q - of_int \<lfloor>q\<rfloor> < 1 / 2 then \<lfloor>q\<rfloor>
      else if 1 / 2 < q - of_int \<lfloor>q\<rfloor> then \<lfloor>q\<rfloor> + 1
      else if even \<lfloor>q\<rfloor> then \<lfloor>q\<rfloor> else \<lfloor>q\<rfloor> + 1)"

definition f32_exponent :: "real \<Rightarrow> int" where
  "f32_exponent x = max \<lfloor>log 2 \<bar>x\<bar>\<rfloor> (- 126)"

definition f32_ulp :: "real \<Rightarrow> real" where
  "f32_ulp x = 2 powr of_int (f32_exponent x - 23)"

definition f32 :: "real \<Rightarrow> real" where
  "f32 x = (if x = 0 then 0 else of_int (round_even (x / f32_ulp x)) * f32_ulp x)"

text \<open>
  Each operation is the exact one followed by rounding. \<^verbatim>\<open>FMath::Sqrt\<close> is the correctly
  rounded square root; \<^verbatim>\<open>FMath::RoundToInt(F)\<close> is the engine's \<^verbatim>\<open>FloorToInt(F + 0.5f)\<close>, which
  sends a tie upward.
\<close>

definition f32_ops :: "real float_ops" where
  "f32_ops =
     \<lparr>FloatLiteral = (\<lambda>i. f32 (of_int i)),
      FloatOfInt32 = (\<lambda>i. f32 (of_int i)),
      FMath_Sqrt = (\<lambda>x. f32 (sqrt x)),
      FMath_RoundToInt = (\<lambda>x. \<lfloor>f32 (x + 1 / 2)\<rfloor>),
      FloatMul = (\<lambda>x y. f32 (x * y)),
      FloatDiv = (\<lambda>x y. f32 (x / y))\<rparr>"

section \<open>Instances for the examples\<close>

text \<open>
  The examples need values for the parameters. \<open>example_image\<close> is a decoded 2 by 2
  image. \<open>example_host\<close> is an engine whose file system holds one four-byte file under the given
  name, with the given wrapper validity and decoder result for these bytes, the given
  identifier, and a memory filled with one value.
\<close>

definition example_image :: IImageWrapper where
  "example_image = \<lparr>GetWidth = 2, GetHeight = 2, GetRaw = Some [10, 20, 30, 40]\<rparr>"

definition example_host ::
  "nat \<Rightarrow> string \<Rightarrow> bool \<Rightarrow> IImageWrapper option \<Rightarrow> uint16 \<Rightarrow> Host" where
  "example_host guid file valid result fill =
     \<lparr>LoadFileToArray = (\<lambda>p. if p = file then Some [137, 80, 78, 71] else None),
      CreateImageWrapper_IsValid = valid,
      SetCompressed = (\<lambda>bytes. if bytes = [137, 80, 78, 71] then result else None),
      NewGuid = guid,
      Memory = (\<lambda>i. fill)\<rparr>"

section \<open>Properties of the rounding\<close>

lemma pow2_from_ge: "0 < p \<Longrightarrow> w \<le> pow2_from p w"
proof (induction p w rule: pow2_from.induct)
  case (1 p w)
  then show ?case
    by (subst pow2_from.simps) auto
qed

lemma pow2_from_pow2: "pow2_from (2 ^ k) w \<in> range (\<lambda>j. (2::nat) ^ j)"
proof (induction "2 ^ k :: nat" w arbitrary: k rule: pow2_from.induct)
  case (1 w)
  show ?case
  proof (cases "w \<le> 2 ^ k")
    case True
    then show ?thesis by (subst pow2_from.simps) simp
  next
    case False
    then have "pow2_from (2 ^ k) w = pow2_from (2 ^ Suc k) w"
      by (subst pow2_from.simps) simp
    moreover have "pow2_from (2 ^ Suc k) w \<in> range (\<lambda>j. (2::nat) ^ j)"
      using 1 [of "Suc k"] False by simp
    ultimately show ?thesis by simp
  qed
qed

lemma pow2_from_tight: "0 < p \<Longrightarrow> p < 2 * w \<Longrightarrow> pow2_from p w < 2 * w"
proof (induction p w rule: pow2_from.induct)
  case (1 p w)
  then show ?case
    by (subst pow2_from.simps) auto
qed

lemma RoundUpToPowerOfTwo_pow2: "\<exists>k. RoundUpToPowerOfTwo w = 2 ^ k"
  using pow2_from_pow2 [of 0 w] by (auto simp: RoundUpToPowerOfTwo_def)

lemma RoundUpToPowerOfTwo_ge: "w \<le> RoundUpToPowerOfTwo w"
  by (simp add: RoundUpToPowerOfTwo_def pow2_from_ge)

lemma RoundUpToPowerOfTwo_less_double: "0 < w \<Longrightarrow> RoundUpToPowerOfTwo w < 2 * w"
  unfolding RoundUpToPowerOfTwo_def by (rule pow2_from_tight) simp_all

lemma RoundUpToPowerOfTwo_fix: "RoundUpToPowerOfTwo (2 ^ k) = 2 ^ k"
proof -
  have "\<And>j. j \<le> k \<Longrightarrow> pow2_from (2 ^ j) (2 ^ k) = 2 ^ k"
  proof -
    fix j :: nat
    assume "j \<le> k"
    then show "pow2_from (2 ^ j) (2 ^ k) = 2 ^ k"
    proof (induction "k - j" arbitrary: j)
      case 0
      then show ?case by (subst pow2_from.simps) simp
    next
      case (Suc d)
      then have lt: "j < k" by simp
      then have "(2::nat) ^ j < 2 ^ k" by simp
      then have "pow2_from (2 ^ j) (2 ^ k) = pow2_from (2 ^ Suc j) (2 ^ k)"
        by (subst pow2_from.simps) simp
      also have "\<dots> = 2 ^ k"
        using Suc(1) [of "Suc j"] Suc(2) lt by simp
      finally show ?case .
    qed
  qed
  from this [of 0] show ?thesis by (simp add: RoundUpToPowerOfTwo_def)
qed

text \<open>
  C4. For every positive integer \<open>w\<close>, the rounded value is at least \<open>w\<close>, is a power of
  two, and is strictly less than \<open>2 * w\<close>.
\<close>

theorem RoundUpToPowerOfTwo_tight:
  "0 < w \<Longrightarrow>
     w \<le> RoundUpToPowerOfTwo w \<and> (\<exists>k. RoundUpToPowerOfTwo w = 2 ^ k) \<and>
     RoundUpToPowerOfTwo w < 2 * w"
  using RoundUpToPowerOfTwo_ge [of w] RoundUpToPowerOfTwo_pow2 [of w]
    RoundUpToPowerOfTwo_less_double [of w]
  by blast

theorem RoundUpToPowerOfTwo_tight_witness:
  "(0::nat) < 300 \<and> RoundUpToPowerOfTwo 300 = 512 \<and>
   (300::nat) \<le> RoundUpToPowerOfTwo 300 \<and> (\<exists>k. RoundUpToPowerOfTwo 300 = 2 ^ k) \<and>
   RoundUpToPowerOfTwo 300 < 2 * 300"
proof -
  have e: "RoundUpToPowerOfTwo 300 = 512"
    by (simp add: RoundUpToPowerOfTwo_def pow2_from.simps)
  show ?thesis
    using RoundUpToPowerOfTwo_tight [of 300] e by simp
qed

section \<open>The copy loops and the resize\<close>

lemma int32_id: "- (2 ^ 31) \<le> x \<Longrightarrow> x < 2 ^ 31 \<Longrightarrow> int32 x = x"
  by (simp add: int32_def)

lemma int32_idem: "int32 (int32 x) = int32 x"
proof -
  have "- (2 ^ 31) \<le> int32 x" "int32 x < 2 ^ 31"
    by (simp_all add: int32_def)
  then show ?thesis by (rule int32_id)
qed

lemma int32_big_square:
  assumes "16 \<le> k"
  shows "int32 (2 ^ k * 2 ^ k) = 0"
proof -
  define d where "d = k + k - 32"
  have "k + k = 32 + d"
    using assms by (simp add: d_def)
  then have "(2::int) ^ k * 2 ^ k = 2 ^ (32 + d)"
    by (simp add: power_add [symmetric])
  also have "\<dots> = 2 ^ 32 * 2 ^ d"
    by (simp only: power_add)
  finally have "(2::int) ^ k * 2 ^ k = 2 ^ 32 * 2 ^ d" .
  then show ?thesis
    by (simp add: int32_def)
qed

lemma copy_row_length:
  "copy_row mem src W S Y X H = Inr H' \<Longrightarrow> length H' = length H"
proof (induction mem src W S Y X H rule: copy_row.induct)
  case (1 mem src W S Y X H)
  show ?case
  proof (cases "X < W")
    case False
    with "1.prems" show ?thesis by (simp add: copy_row.simps)
  next
    case True
    with "1.prems" obtain H1 where
      s: "TArray_set H (int32 (int32 (Y * S) + X))
            (SrcData_read mem src (int32 (int32 (Y * W) + X))) = Inr H1" and
      c: "copy_row mem src W S Y (X + 1) H1 = Inr H'"
      by (subst (asm) copy_row.simps) (auto split: sum.splits)
    from s have "length H1 = length H"
      by (auto simp: TArray_set_def split: if_splits)
    with "1.IH" [OF True s c] show ?thesis by simp
  qed
qed

lemma copy_row_first:
  assumes "copy_row mem src W S Y X H = Inr H'" and "X < W"
  shows "0 \<le> int32 (int32 (Y * S) + X) \<and> int32 (int32 (Y * S) + X) < int (length H)"
  using assms
  by (subst (asm) copy_row.simps) (auto simp: TArray_set_def split: sum.splits if_splits)

lemma copy_rows_length:
  "copy_rows mem src W Ht S Y H = Inr H' \<Longrightarrow> length H' = length H"
proof (induction mem src W Ht S Y H rule: copy_rows.induct)
  case (1 mem src W Ht S Y H)
  show ?case
  proof (cases "Y < Ht")
    case False
    with "1.prems" show ?thesis by (simp add: copy_rows.simps)
  next
    case True
    with "1.prems" obtain H1 where
      r: "copy_row mem src W S Y 0 H = Inr H1" and
      c: "copy_rows mem src W Ht S (Y + 1) H1 = Inr H'"
      by (subst (asm) copy_rows.simps) (auto split: sum.splits)
    with "1.IH" [OF True r c] copy_row_length [OF r] show ?thesis by simp
  qed
qed

lemma copy_rows_rows_checked:
  assumes "copy_rows mem src W Ht S Y H = Inr H'" and "0 < W" and "Y \<le> y" and "y < Ht"
  shows "0 \<le> int32 (int32 (y * S)) \<and> int32 (int32 (y * S)) < int (length H)"
  using assms
proof (induction mem src W Ht S Y H rule: copy_rows.induct)
  case (1 mem src W Ht S Y H)
  from "1.prems" have lt: "Y < Ht" by simp
  with "1.prems" obtain H1 where
    r: "copy_row mem src W S Y 0 H = Inr H1" and
    c: "copy_rows mem src W Ht S (Y + 1) H1 = Inr H'"
    by (subst (asm) copy_rows.simps) (auto split: sum.splits)
  show ?case
  proof (cases "y = Y")
    case True
    with copy_row_first [OF r \<open>0 < W\<close>] show ?thesis by simp
  next
    case False
    with "1.prems" have "Y + 1 \<le> y" by simp
    from "1.IH" [OF lt r c \<open>0 < W\<close> this \<open>y < Ht\<close>] copy_row_length [OF r]
    show ?thesis by simp
  qed
qed

lemma copy_row_ok:
  assumes "0 \<le> X" "X \<le> W" "0 \<le> Y" "0 \<le> S"
    and "Y * S + W \<le> int (length H)" "int (length H) < 2 ^ 31"
    and "Y * W + W \<le> int (length src)" "int (length src) < 2 ^ 31"
  shows "\<exists>H'. copy_row mem src W S Y X H = Inr H' \<and> length H' = length H \<and>
           (\<forall>i<length H. H' ! i =
              (if Y * S + X \<le> int i \<and> int i < Y * S + W
               then src ! nat (Y * W + (int i - Y * S)) else H ! i))"
  using assms
proof (induction mem src W S Y X H rule: copy_row.induct)
  case (1 mem src W S Y X H)
  show ?case
  proof (cases "X < W")
    case False
    with "1.prems" have "X = W" by simp
    then have "copy_row mem src W S Y X H = Inr H"
      by (simp add: copy_row.simps)
    moreover have "\<not> (Y * S + X \<le> int i \<and> int i < Y * S + W)" for i
      using \<open>X = W\<close> by simp
    ultimately show ?thesis by auto
  next
    case True
    have YS: "0 \<le> Y * S" and YW: "0 \<le> Y * W"
      using "1.prems" by simp_all
    have b: "Y * W + X < 2 ^ 31" "Y * S + X < 2 ^ 31"
      using "1.prems" True by linarith+
    have "int32 (Y * W) = Y * W"
      by (rule int32_id) (use YW b "1.prems" in linarith)+
    moreover have "int32 (Y * S) = Y * S"
      by (rule int32_id) (use YS b "1.prems" in linarith)+
    moreover have "int32 (Y * W + X) = Y * W + X"
      by (rule int32_id) (use YW b "1.prems" in linarith)+
    moreover have "int32 (Y * S + X) = Y * S + X"
      by (rule int32_id) (use YS b "1.prems" in linarith)+
    ultimately have i1: "int32 (int32 (Y * W) + X) = Y * W + X"
      and i2: "int32 (int32 (Y * S) + X) = Y * S + X"
      by simp_all
    define v where "v = src ! nat (Y * W + X)"
    define H1 where "H1 = H[nat (Y * S + X) := v]"
    have r: "SrcData_read mem src (int32 (int32 (Y * W) + X)) = v"
      using "1.prems" True YW by (simp add: i1 SrcData_read_def v_def)
    have s: "TArray_set H (int32 (int32 (Y * S) + X))
               (SrcData_read mem src (int32 (int32 (Y * W) + X))) = Inr H1"
      using "1.prems" True YS by (simp add: r i2 TArray_set_def H1_def)
    have len: "length H1 = length H" by (simp add: H1_def)
    have "\<exists>H'. copy_row mem src W S Y (X + 1) H1 = Inr H' \<and> length H' = length H1 \<and>
           (\<forall>i<length H1. H' ! i =
              (if Y * S + (X + 1) \<le> int i \<and> int i < Y * S + W
               then src ! nat (Y * W + (int i - Y * S)) else H1 ! i))"
      using "1.prems" True by (intro "1.IH" [OF True s]) (simp_all add: len)
    then obtain H' where
      c: "copy_row mem src W S Y (X + 1) H1 = Inr H'" and l: "length H' = length H" and
      n: "\<And>i. i < length H \<Longrightarrow> H' ! i =
              (if Y * S + (X + 1) \<le> int i \<and> int i < Y * S + W
               then src ! nat (Y * W + (int i - Y * S)) else H1 ! i)"
      by (auto simp: len)
    have e: "copy_row mem src W S Y X H = Inr H'"
      by (subst copy_row.simps) (simp add: True s c)
    have "H' ! i =
              (if Y * S + X \<le> int i \<and> int i < Y * S + W
               then src ! nat (Y * W + (int i - Y * S)) else H ! i)"
      if "i < length H" for i
    proof (cases "int i = Y * S + X")
      case eq: True
      then have "i = nat (Y * S + X)" by simp
      then have "H1 ! i = v" using that by (simp add: H1_def)
      with n [OF that] eq True show ?thesis by (simp add: v_def)
    next
      case ne: False
      then have "i \<noteq> nat (Y * S + X)" using YS "1.prems" by auto
      then have "H1 ! i = H ! i" by (simp add: H1_def)
      with n [OF that] ne show ?thesis by auto
    qed
    with e l show ?thesis by blast
  qed
qed

lemma copy_rows_ok:
  assumes "0 \<le> Y" "Y \<le> Ht" "0 < W" "W \<le> S"
    and "Ht * S \<le> int (length H)" "int (length H) < 2 ^ 31"
    and "Ht * W \<le> int (length src)" "int (length src) < 2 ^ 31"
  shows "\<exists>H'. copy_rows mem src W Ht S Y H = Inr H' \<and> length H' = length H \<and>
           (\<forall>r c. 0 \<le> r \<longrightarrow> 0 \<le> c \<longrightarrow> c < S \<longrightarrow> r * S + c < int (length H) \<longrightarrow>
              H' ! nat (r * S + c) =
                (if Y \<le> r \<and> r < Ht \<and> c < W then src ! nat (r * W + c)
                 else H ! nat (r * S + c)))"
  using assms
proof (induction mem src W Ht S Y H rule: copy_rows.induct)
  case (1 mem src W Ht S Y H)
  show ?case
  proof (cases "Y < Ht")
    case False
    then have "copy_rows mem src W Ht S Y H = Inr H"
      by (simp add: copy_rows.simps)
    moreover have "\<not> (Y \<le> r \<and> r < Ht \<and> c < W)" for r c
      using False by simp
    ultimately show ?thesis by auto
  next
    case True
    have S0: "0 \<le> S" and W0: "0 \<le> W" using "1.prems" by simp_all
    have "(Y + 1) * S \<le> Ht * S" "(Y + 1) * W \<le> Ht * W"
      using True S0 W0 by (simp_all add: mult_right_mono)
    then have p1: "Y * S + W \<le> int (length H)" and p2: "Y * W + W \<le> int (length src)"
      using "1.prems" by (simp_all add: algebra_simps)
    from copy_row_ok [of 0 W Y S H src] "1.prems" p1 p2 S0
    obtain H1 where
      r: "copy_row mem src W S Y 0 H = Inr H1" and l1: "length H1 = length H" and
      n1: "\<And>i. i < length H \<Longrightarrow> H1 ! i =
              (if Y * S \<le> int i \<and> int i < Y * S + W
               then src ! nat (Y * W + (int i - Y * S)) else H ! i)"
      by auto
    have "\<exists>H'. copy_rows mem src W Ht S (Y + 1) H1 = Inr H' \<and> length H' = length H1 \<and>
           (\<forall>r c. 0 \<le> r \<longrightarrow> 0 \<le> c \<longrightarrow> c < S \<longrightarrow> r * S + c < int (length H1) \<longrightarrow>
              H' ! nat (r * S + c) =
                (if Y + 1 \<le> r \<and> r < Ht \<and> c < W then src ! nat (r * W + c)
                 else H1 ! nat (r * S + c)))"
      using "1.prems" True by (intro "1.IH" [OF True r]) (simp_all add: l1)
    then obtain H' where
      c: "copy_rows mem src W Ht S (Y + 1) H1 = Inr H'" and l: "length H' = length H" and
      n: "\<And>r c. 0 \<le> r \<Longrightarrow> 0 \<le> c \<Longrightarrow> c < S \<Longrightarrow> r * S + c < int (length H) \<Longrightarrow>
              H' ! nat (r * S + c) =
                (if Y + 1 \<le> r \<and> r < Ht \<and> c < W then src ! nat (r * W + c)
                 else H1 ! nat (r * S + c))"
      by (auto simp: l1)
    have e: "copy_rows mem src W Ht S Y H = Inr H'"
      by (subst copy_rows.simps) (simp add: True r c)
    have "H' ! nat (r * S + c) =
                (if Y \<le> r \<and> r < Ht \<and> c < W then src ! nat (r * W + c)
                 else H ! nat (r * S + c))"
      if rc: "0 \<le> r" "0 \<le> c" "c < S" "r * S + c < int (length H)" for r c
    proof -
      have rS: "0 \<le> r * S" using rc S0 by simp
      then have nn: "0 \<le> r * S + c" using rc by linarith
      then have idx: "nat (r * S + c) < length H" "int (nat (r * S + c)) = r * S + c"
        using rc(4) by linarith+
      note h1 = n1 [OF idx(1), unfolded idx(2)]
      note h' = n [OF rc]
      consider (same) "r = Y" | (below) "r + 1 \<le> Y" | (above) "Y + 1 \<le> r"
        by linarith
      then show ?thesis
      proof cases
        case same
        then show ?thesis using h1 h' rc True by auto
      next
        case below
        then have "(r + 1) * S \<le> Y * S"
          using S0 by (intro mult_right_mono) simp_all
        then have "r * S + c < Y * S"
          using rc by (simp add: algebra_simps)
        then show ?thesis using h1 h' below by auto
      next
        case above
        then have "(Y + 1) * S \<le> r * S"
          using S0 by (intro mult_right_mono) simp_all
        then have "Y * S + W \<le> r * S + c"
          using rc "1.prems" by (simp add: algebra_simps)
        then show ?thesis using h1 h' above by auto
      qed
    qed
    with e l show ?thesis by blast
  qed
qed

lemma decoded_width_small:
  assumes "decoded img src"
  shows "0 < GetWidth img" and "2 * GetWidth img < 2 ^ 31"
proof -
  from assms have w: "0 < GetWidth img" and h: "1 \<le> GetHeight img"
    and b: "2 * (GetWidth img * GetHeight img) < 2 ^ 31"
    by (simp_all add: decoded_def)
  from w h have "GetWidth img * 1 \<le> GetWidth img * GetHeight img"
    by (intro mult_left_mono) simp_all
  then have "GetWidth img \<le> GetWidth img * GetHeight img" by simp
  with b show "2 * GetWidth img < 2 ^ 31" by linarith
  from w show "0 < GetWidth img" .
qed

lemma SizeX_decoded:
  assumes "decoded img src"
  shows "SizeX img = int (RoundUpToPowerOfTwo (nat (GetWidth img)))"
    and "GetWidth img \<le> SizeX img" and "SizeX img < 2 * GetWidth img"
proof -
  let ?w = "nat (GetWidth img)"
  let ?p = "int (RoundUpToPowerOfTwo ?w)"
  note d = decoded_width_small [OF assms]
  have "?w \<le> RoundUpToPowerOfTwo ?w" "RoundUpToPowerOfTwo ?w < 2 * ?w"
    using RoundUpToPowerOfTwo_ge [of ?w] RoundUpToPowerOfTwo_less_double [of ?w] d
    by simp_all
  then have ge: "GetWidth img \<le> ?p" and lt: "?p < 2 * GetWidth img"
    using d by linarith+
  have "int32 ?p = ?p"
    by (rule int32_id) (use ge lt d in linarith)+
  moreover have "uint32 (GetWidth img) = ?w"
    using d by (simp add: uint32_def)
  ultimately show e: "SizeX img = ?p" by (simp add: SizeX_def)
  from ge lt e show "GetWidth img \<le> SizeX img" "SizeX img < 2 * GetWidth img"
    by simp_all
qed

lemma SizeX_pow2:
  assumes "decoded img src"
  shows "\<exists>k. SizeX img = 2 ^ k"
proof -
  obtain k where "RoundUpToPowerOfTwo (nat (GetWidth img)) = 2 ^ k"
    using RoundUpToPowerOfTwo_pow2 by blast
  with SizeX_decoded(1) [OF assms] show ?thesis by auto
qed

lemma pow2_square_small:
  fixes k :: nat
  assumes "k \<le> 15"
  shows "(2::int) ^ k * 2 ^ k < 2 ^ 31"
proof -
  have "(2::int) ^ k * 2 ^ k = 2 ^ (k + k)" by (simp add: power_add)
  also have "\<dots> \<le> 2 ^ 30" using assms by (intro power_increasing) simp_all
  finally show ?thesis by simp
qed

text \<open>When the resize returns, no row lay outside the array and nothing wrapped around.\<close>

lemma resize_Inr_bounds:
  assumes d: "decoded img src" and r: "resize mem img = Inr g"
  shows "GetHeight img \<le> SizeX img" and "SizeX img * SizeX img < 2 ^ 31"
    and "int (length g) = SizeX img * SizeX img"
proof -
  let ?S = "SizeX img"
  let ?N = "int32 (?S * ?S)"
  from d have raw: "GetRaw img = Some src" and w: "0 < GetWidth img" and h: "0 < GetHeight img"
    by (simp_all add: decoded_def)
  from r raw have rs: "resize_samples mem img src = Inr g"
    by (simp add: resize_def)
  then have nn: "0 \<le> ?N" and
    c: "copy_rows mem src (GetWidth img) (GetHeight img) ?S 0 (replicate (nat ?N) 0) = Inr g"
    by (auto simp: resize_samples_def SizeY_def SetNum_Memzero_def split: if_splits)
  have z: "int32 (int32 (0 * ?S)) = 0" by (simp add: int32_def)
  from copy_rows_rows_checked [OF c w, of 0] h
  have "int32 (int32 (0 * ?S)) < int (length (replicate (nat ?N) (0::uint16)))"
    by simp
  then have pos: "0 < ?N" unfolding z using nn by simp
  obtain k where k: "?S = 2 ^ k" using SizeX_pow2 [OF d] by blast
  have "k \<le> 15"
  proof (rule ccontr)
    assume "\<not> k \<le> 15"
    then have "16 \<le> k" by simp
    from int32_big_square [OF this] pos k show False by simp
  qed
  then show small: "?S * ?S < 2 ^ 31"
    using pow2_square_small [of k] k by simp
  have "0 \<le> ?S * ?S" by simp
  with small have N: "?N = ?S * ?S" by (intro int32_id) linarith+
  from copy_rows_length [OF c] N nn show "int (length g) = ?S * ?S" by simp
  show "GetHeight img \<le> ?S"
  proof (rule ccontr)
    assume "\<not> GetHeight img \<le> ?S"
    then have lt: "?S < GetHeight img" by simp
    have S0: "0 \<le> ?S" using k by simp
    from copy_rows_rows_checked [OF c w S0 lt]
    have "int32 ?N < int (length (replicate (nat ?N) (0::uint16)))" by simp
    then show False using nn by (simp add: int32_idem)
  qed
qed

text \<open>The cells of the grid that the resize returns.\<close>

lemma resize_Inr_cells:
  assumes d: "decoded img src" and r: "resize mem img = Inr g"
    and rc: "0 \<le> row" "row < SizeX img" "0 \<le> col" "col < SizeX img"
  shows "g ! nat (row * SizeX img + col) =
           (if row < GetHeight img \<and> col < GetWidth img
            then src ! nat (row * GetWidth img + col) else 0)"
proof -
  let ?S = "SizeX img"
  note b = resize_Inr_bounds [OF d r]
  from d have raw: "GetRaw img = Some src" and w: "0 < GetWidth img" and h: "0 < GetHeight img"
    and len: "int (length src) = GetWidth img * GetHeight img"
    and fit: "2 * (GetWidth img * GetHeight img) < 2 ^ 31"
    by (simp_all add: decoded_def)
  have N: "int32 (?S * ?S) = ?S * ?S"
    by (rule int32_id) (use b(2) in \<open>simp_all add: order_trans [of _ 0]\<close>)
  define H0 :: "uint16 list" where "H0 = replicate (nat (?S * ?S)) 0"
  have l0: "int (length H0) = ?S * ?S" by (simp add: H0_def)
  from r raw have c: "copy_rows mem src (GetWidth img) (GetHeight img) ?S 0 H0 = Inr g"
    by (simp add: resize_def resize_samples_def SizeY_def SetNum_Memzero_def N H0_def)
  have S0: "0 \<le> ?S" using rc by simp
  have "GetHeight img * ?S \<le> ?S * ?S"
    using b(1) S0 by (intro mult_right_mono) simp_all
  then have p1: "GetHeight img * ?S \<le> int (length H0)" by (simp add: l0)
  have p2: "GetHeight img * GetWidth img \<le> int (length src)"
    by (simp add: len mult.commute)
  have "(row + 1) * ?S \<le> ?S * ?S"
    using rc S0 by (intro mult_right_mono) simp_all
  then have in_range: "row * ?S + col < int (length H0)"
    using rc by (simp add: l0 algebra_simps)
  have "0 \<le> row * ?S" using rc S0 by simp
  then have idx: "nat (row * ?S + col) < length H0"
    using in_range rc by linarith
  have ls: "int (length src) < 2 ^ 31" using len fit by linarith
  have lh: "int (length H0) < 2 ^ 31" using l0 b(2) by simp
  have h0: "0 \<le> GetHeight img" using h by simp
  from copy_rows_ok [where mem = mem, OF order_refl h0 w SizeX_decoded(2) [OF d] p1 lh p2 ls]
  obtain g' where c': "copy_rows mem src (GetWidth img) (GetHeight img) ?S 0 H0 = Inr g'"
    and cells: "\<And>r c. 0 \<le> r \<Longrightarrow> 0 \<le> c \<Longrightarrow> c < ?S \<Longrightarrow> r * ?S + c < int (length H0) \<Longrightarrow>
              g' ! nat (r * ?S + c) =
                (if 0 \<le> r \<and> r < GetHeight img \<and> c < GetWidth img
                 then src ! nat (r * GetWidth img + c) else H0 ! nat (r * ?S + c))"
    by auto
  from c c' have "g' = g" by simp
  moreover have "H0 ! nat (row * ?S + col) = 0"
    using idx by (simp add: H0_def)
  ultimately show ?thesis
    using cells [OF rc(1) rc(3) rc(4) in_range] rc by simp
qed

text \<open>The resize returns a grid whenever the image is no taller than the target side
  and the target area fits an \<^verbatim>\<open>int32\<close>.\<close>

lemma resize_total_when_fits:
  assumes d: "decoded img src" and ht: "GetHeight img \<le> SizeX img"
    and small: "SizeX img * SizeX img < 2 ^ 31"
  shows "\<exists>g. resize mem img = Inr g"
proof -
  let ?S = "SizeX img"
  from d have raw: "GetRaw img = Some src" and w: "0 < GetWidth img" and h: "0 < GetHeight img"
    and len: "int (length src) = GetWidth img * GetHeight img"
    and fit: "2 * (GetWidth img * GetHeight img) < 2 ^ 31"
    by (simp_all add: decoded_def)
  have N: "int32 (?S * ?S) = ?S * ?S"
    by (rule int32_id) (use small in \<open>simp_all add: order_trans [of _ 0]\<close>)
  define H0 :: "uint16 list" where "H0 = replicate (nat (?S * ?S)) 0"
  have l0: "int (length H0) = ?S * ?S" by (simp add: H0_def)
  have S0: "0 \<le> ?S" using SizeX_decoded(2) [OF d] w by simp
  have "GetHeight img * ?S \<le> ?S * ?S"
    using ht S0 by (intro mult_right_mono) simp_all
  then have p1: "GetHeight img * ?S \<le> int (length H0)" by (simp add: l0)
  have p2: "GetHeight img * GetWidth img \<le> int (length src)"
    by (simp add: len mult.commute)
  have ls: "int (length src) < 2 ^ 31" using len fit by linarith
  have lh: "int (length H0) < 2 ^ 31" using l0 small by simp
  have h0: "0 \<le> GetHeight img" using h by simp
  from copy_rows_ok [where mem = mem, OF order_refl h0 w SizeX_decoded(2) [OF d] p1 lh p2 ls]
  obtain g where "copy_rows mem src (GetWidth img) (GetHeight img) ?S 0 H0 = Inr g"
    by auto
  then have "resize mem img = Inr g"
    by (simp add: resize_def raw resize_samples_def SizeY_def SetNum_Memzero_def N H0_def)
  then show ?thesis ..
qed

lemma resize_taller_fails:
  assumes "decoded img src" and "SizeX img < GetHeight img"
  shows "\<exists>e. resize mem img = Inl e"
proof (cases "resize mem img")
  case (Inl e)
  then show ?thesis by blast
next
  case (Inr g)
  from resize_Inr_bounds(1) [OF assms(1) Inr] assms(2) show ?thesis by simp
qed

text \<open>
  On a decoded image every read of the loops stays inside the raw buffer, so the memory
  around the buffer has no part in the result. With a raw buffer shorter than
  \<open>width * height\<close> the reads leave the buffer and the grid holds what the memory held.
\<close>

lemma copy_row_memory:
  assumes "0 \<le> X" "0 \<le> Y" "0 \<le> W"
    and "Y * W + W \<le> int (length src)" "int (length src) < 2 ^ 31"
  shows "copy_row mem src W S Y X H = copy_row mem' src W S Y X H"
  using assms
proof (induction mem src W S Y X H rule: copy_row.induct)
  case (1 mem src W S Y X H)
  show ?case
  proof (cases "X < W")
    case False
    then show ?thesis by (simp add: copy_row.simps)
  next
    case True
    let ?i = "int32 (int32 (Y * W) + X)"
    let ?j = "int32 (int32 (Y * S) + X)"
    have YW: "0 \<le> Y * W" using "1.prems" by simp
    have b: "Y * W + X < 2 ^ 31" using "1.prems" True by linarith
    have "int32 (Y * W) = Y * W"
      by (rule int32_id) (use YW b "1.prems" in linarith)+
    moreover have "int32 (Y * W + X) = Y * W + X"
      by (rule int32_id) (use YW b "1.prems" in linarith)+
    ultimately have i: "?i = Y * W + X" by simp
    have "0 \<le> ?i" "?i < int (length src)"
      using i YW "1.prems" True by linarith+
    then have rd: "SrcData_read mem src ?i = SrcData_read mem' src ?i"
      by (simp add: SrcData_read_def)
    have L: "copy_row mem src W S Y X H =
        (case TArray_set H ?j (SrcData_read mem src ?i) of
           Inl e \<Rightarrow> Inl e
         | Inr H1 \<Rightarrow> copy_row mem src W S Y (X + 1) H1)"
      by (subst copy_row.simps) (simp add: True)
    have R: "copy_row mem' src W S Y X H =
        (case TArray_set H ?j (SrcData_read mem src ?i) of
           Inl e \<Rightarrow> Inl e
         | Inr H1 \<Rightarrow> copy_row mem' src W S Y (X + 1) H1)"
      by (subst copy_row.simps) (simp add: True rd)
    show ?thesis
    proof (cases "TArray_set H ?j (SrcData_read mem src ?i)")
      case (Inl e)
      then show ?thesis by (simp add: L R)
    next
      case (Inr H1)
      have "copy_row mem src W S Y (X + 1) H1 = copy_row mem' src W S Y (X + 1) H1"
        using "1.prems" by (intro "1.IH" [OF True Inr]) simp_all
      with Inr show ?thesis by (simp add: L R)
    qed
  qed
qed

lemma copy_rows_memory:
  assumes "0 \<le> Y" "0 \<le> W"
    and "Ht * W \<le> int (length src)" "int (length src) < 2 ^ 31"
  shows "copy_rows mem src W Ht S Y H = copy_rows mem' src W Ht S Y H"
  using assms
proof (induction mem src W Ht S Y H rule: copy_rows.induct)
  case (1 mem src W Ht S Y H)
  show ?case
  proof (cases "Y < Ht")
    case False
    then show ?thesis by (simp add: copy_rows.simps)
  next
    case True
    have "(Y + 1) * W \<le> Ht * W"
      using True "1.prems" by (intro mult_right_mono) simp_all
    then have "Y * W + W \<le> int (length src)"
      using "1.prems" by (simp add: algebra_simps)
    from copy_row_memory [OF order_refl "1.prems"(1,2) this "1.prems"(4)]
    have row: "copy_row mem src W S Y 0 H = copy_row mem' src W S Y 0 H" .
    have L: "copy_rows mem src W Ht S Y H =
        (case copy_row mem src W S Y 0 H of
           Inl e \<Rightarrow> Inl e
         | Inr H1 \<Rightarrow> copy_rows mem src W Ht S (Y + 1) H1)"
      by (subst copy_rows.simps) (simp add: True)
    have R: "copy_rows mem' src W Ht S Y H =
        (case copy_row mem src W S Y 0 H of
           Inl e \<Rightarrow> Inl e
         | Inr H1 \<Rightarrow> copy_rows mem' src W Ht S (Y + 1) H1)"
      by (subst copy_rows.simps) (simp add: True row)
    show ?thesis
    proof (cases "copy_row mem src W S Y 0 H")
      case (Inl e)
      then show ?thesis by (simp add: L R)
    next
      case (Inr H1)
      have "copy_rows mem src W Ht S (Y + 1) H1 = copy_rows mem' src W Ht S (Y + 1) H1"
        using "1.prems" by (intro "1.IH" [OF True Inr]) simp_all
      with Inr show ?thesis by (simp add: L R)
    qed
  qed
qed

lemma resize_memory:
  assumes "decoded img src"
  shows "resize mem img = resize mem' img"
proof -
  from assms have raw: "GetRaw img = Some src" and w: "0 \<le> GetWidth img"
    and len: "int (length src) = GetWidth img * GetHeight img"
    and fit: "2 * (GetWidth img * GetHeight img) < 2 ^ 31"
    by (simp_all add: decoded_def)
  have p: "GetHeight img * GetWidth img \<le> int (length src)"
    by (simp add: len mult.commute)
  have ls: "int (length src) < 2 ^ 31" using len fit by linarith
  have "copy_rows mem src (GetWidth img) (GetHeight img) (SizeX img) 0 H =
        copy_rows mem' src (GetWidth img) (GetHeight img) (SizeX img) 0 H" for H
    by (rule copy_rows_memory [OF order_refl w p ls])
  then show ?thesis
    by (simp add: resize_def raw resize_samples_def split: sum.splits)
qed

lemma short_buffer_reads_memory:
  "resize (\<lambda>i. 5) \<lparr>GetWidth = 2, GetHeight = 1, GetRaw = Some [1]\<rparr> = Inr [1, 5, 0, 0] \<and>
   resize (\<lambda>i. 9) \<lparr>GetWidth = 2, GetHeight = 1, GetRaw = Some [1]\<rparr> = Inr [1, 9, 0, 0]"
  by code_simp

section \<open>Properties of single precision\<close>

lemma round_even_of_int: "round_even (of_int m) = m"
  by (simp add: round_even_def)

lemma round_even_cases: "round_even q = \<lfloor>q\<rfloor> \<or> round_even q = \<lfloor>q\<rfloor> + 1"
  by (simp add: round_even_def)

lemma round_even_ge:
  assumes "of_int m \<le> q"
  shows "m \<le> round_even q"
proof -
  have "m \<le> \<lfloor>q\<rfloor>" using assms by (simp add: le_floor_iff)
  with round_even_cases [of q] show ?thesis by auto
qed

lemma round_even_le:
  assumes "q \<le> of_int m"
  shows "round_even q \<le> m"
proof (cases "q = of_int m")
  case True
  then show ?thesis by (simp add: round_even_of_int)
next
  case False
  with assms have "q < of_int m" by simp
  then have "\<lfloor>q\<rfloor> < m" by (simp add: floor_less_iff)
  with round_even_cases [of q] show ?thesis by auto
qed




lemma f32_ulp_pos: "0 < f32_ulp x"
  by (simp add: f32_ulp_def)

lemma f32_ge:
  assumes "x \<noteq> 0" and "of_int m * f32_ulp x \<le> x"
  shows "of_int m * f32_ulp x \<le> f32 x"
proof -
  have "of_int m \<le> x / f32_ulp x"
    using assms(2) f32_ulp_pos [of x] by (simp add: pos_le_divide_eq)
  then have "m \<le> round_even (x / f32_ulp x)" by (rule round_even_ge)
  then have "(of_int m :: real) \<le> of_int (round_even (x / f32_ulp x))" by simp
  then show ?thesis
    using assms(1) f32_ulp_pos [of x] by (simp add: f32_def)
qed

lemma f32_le:
  assumes "x \<noteq> 0" and "x \<le> of_int m * f32_ulp x"
  shows "f32 x \<le> of_int m * f32_ulp x"
proof -
  have "x / f32_ulp x \<le> of_int m"
    using assms(2) f32_ulp_pos [of x] by (simp add: pos_divide_le_eq)
  then have "round_even (x / f32_ulp x) \<le> m" by (rule round_even_le)
  then have "(of_int (round_even (x / f32_ulp x)) :: real) \<le> of_int m" by simp
  then show ?thesis
    using assms(1) f32_ulp_pos [of x] by (simp add: f32_def)
qed

lemma f32_exact:
  assumes "x = of_int m * f32_ulp x"
  shows "f32 x = x"
proof (cases "x = 0")
  case True
  then show ?thesis by (simp add: f32_def)
next
  case False
  from f32_ge [OF False, of m] f32_le [OF False, of m] assms show ?thesis by simp
qed


lemma p2_add: "2 powr of_int (a + b) = (2::real) powr of_int a * 2 powr of_int b"
  by (simp add: powr_add)


lemma p2_nat: "0 \<le> a \<Longrightarrow> (2::real) powr of_int a = of_int (2 ^ nat a)"
  by (simp add: powr_real_of_int)



lemma f32_exponent_upper:
  assumes "0 < x" and "x < 2 powr of_int b" and "- 125 \<le> b"
  shows "f32_exponent x \<le> b - 1"
proof -
  have "log 2 x < of_int b"
    using assms(1,2) by (simp add: log_less_iff)
  then have "\<lfloor>log 2 x\<rfloor> < b" by (simp add: floor_less_iff)
  then show ?thesis
    using assms(1,3) by (simp add: f32_exponent_def)
qed

lemma f32_exponent_lower: "- 126 \<le> f32_exponent x"
  by (simp add: f32_exponent_def)

lemma f32_multiple:
  assumes "0 < x" and "x < 2 powr of_int b" and "- 125 \<le> b"
  shows "\<exists>m. of_int i * 2 powr of_int (b - 24) = of_int m * f32_ulp x"
proof -
  define d where "d = b - 1 - f32_exponent x"
  have d: "0 \<le> d"
    using f32_exponent_upper [OF assms] by (simp add: d_def)
  have "b - 24 = d + (f32_exponent x - 23)" by (simp add: d_def)
  then have "(2::real) powr of_int (b - 24) = 2 powr of_int d * f32_ulp x"
    by (simp only: p2_add f32_ulp_def)
  also have "\<dots> = of_int (2 ^ nat d) * f32_ulp x"
    by (simp only: p2_nat [OF d])
  finally have "of_int i * 2 powr of_int (b - 24) = of_int (i * 2 ^ nat d) * f32_ulp x"
    by simp
  then show ?thesis ..
qed




lemma f32_exactI:
  assumes "0 < x" and "x < 2 powr of_int b" and "- 125 \<le> b"
    and "x = of_int i * 2 powr of_int (b - 24)"
  shows "f32 x = x"
proof -
  from f32_multiple [OF assms(1-3), of i] obtain m where
    "of_int i * 2 powr of_int (b - 24) = of_int m * f32_ulp x" ..
  with assms(4) have "x = of_int m * f32_ulp x" by simp
  then show ?thesis by (rule f32_exact)
qed

lemma f32_of_int:
  assumes "0 < n" and "n < 2 ^ 24"
  shows "f32 (of_int n) = of_int n"
proof (rule f32_exactI [where b = 24 and i = n])
  show "0 < (of_int n :: real)" using assms(1) by simp
  have "(of_int n :: real) < of_int (2 ^ 24)" using assms(2) by (simp only: of_int_less_iff)
  then show "of_int n < 2 powr real_of_int 24" by simp
qed simp_all
















section \<open>The claims about the resize\<close>

text \<open>
  C1. The claim: for every decoded image every write of the copy loop lands inside the
  allocated buffer, and the resize has no error path. The loops of lines 51 to 57 run
  \<open>Y\<close> over the whole source height with no comparison against \<open>SizeX\<close>. For a decoded
  image one pixel wide and two pixels high the array has one element, and the write of
  row 1 goes to index 1: the engine's range check stops the function, whatever the memory
  around the raw buffer holds.
\<close>

theorem resize_tall_image_range_check:
  "decoded \<lparr>GetWidth = 1, GetHeight = 2, GetRaw = Some [7, 9]\<rparr> [7, 9] \<and>
   resize mem \<lparr>GetWidth = 1, GetHeight = 2, GetRaw = Some [7, 9]\<rparr> = Inl RangeCheckFailed"
proof
  show d: "decoded \<lparr>GetWidth = 1, GetHeight = 2, GetRaw = Some [7, 9]\<rparr> [7, 9]"
    by (simp add: decoded_def)
  have "resize (\<lambda>i. 0) \<lparr>GetWidth = 1, GetHeight = 2, GetRaw = Some [7, 9]\<rparr> =
      Inl RangeCheckFailed"
    by code_simp
  with resize_memory [OF d, of mem "\<lambda>i. 0"]
  show "resize mem \<lparr>GetWidth = 1, GetHeight = 2, GetRaw = Some [7, 9]\<rparr> = Inl RangeCheckFailed"
    by simp
qed

text \<open>
  C2. For every decoded image, both sides of the target are the width rounded up to a
  power of two; replacing the height (and the raw data) of the image changes neither
  side; and the grid that the resize returns has \<open>SizeX * SizeY\<close> samples.
\<close>

theorem target_size_is_width_rounded:
  assumes "decoded img src"
  shows "SizeX img = int (RoundUpToPowerOfTwo (nat (GetWidth img))) \<and>
         SizeY img = int (RoundUpToPowerOfTwo (nat (GetWidth img))) \<and>
         (\<forall>h raw. SizeX (img\<lparr>GetHeight := h, GetRaw := raw\<rparr>) = SizeX img \<and>
                  SizeY (img\<lparr>GetHeight := h, GetRaw := raw\<rparr>) = SizeY img) \<and>
         (\<forall>g. resize mem img = Inr g \<longrightarrow> int (length g) = SizeX img * SizeY img)"
proof -
  have "SizeX img = int (RoundUpToPowerOfTwo (nat (GetWidth img)))"
    by (rule SizeX_decoded(1) [OF assms])
  moreover have "SizeX (img\<lparr>GetHeight := h, GetRaw := raw\<rparr>) = SizeX img" for h raw
    by (simp add: SizeX_def)
  moreover have "int (length g) = SizeX img * SizeY img" if "resize mem img = Inr g" for g
    using resize_Inr_bounds(3) [OF assms that] by (simp add: SizeY_def)
  ultimately show ?thesis by (simp add: SizeY_def)
qed

theorem target_size_is_width_rounded_witness:
  "decoded \<lparr>GetWidth = 3, GetHeight = 2, GetRaw = Some [1, 2, 3, 4, 5, 6]\<rparr> [1, 2, 3, 4, 5, 6] \<and>
   resize (\<lambda>i. 0) \<lparr>GetWidth = 3, GetHeight = 2, GetRaw = Some [1, 2, 3, 4, 5, 6]\<rparr> =
     Inr [1, 2, 3, 0, 4, 5, 6, 0, 0, 0, 0, 0, 0, 0, 0, 0] \<and>
   SizeX \<lparr>GetWidth = 3, GetHeight = 2, GetRaw = Some [1, 2, 3, 4, 5, 6]\<rparr> = 4 \<and>
   SizeY \<lparr>GetWidth = 3, GetHeight = 2, GetRaw = Some [1, 2, 3, 4, 5, 6]\<rparr> = 4 \<and>
   SizeX \<lparr>GetWidth = 3, GetHeight = 7, GetRaw = None\<rparr> = 4 \<and>
   int (length [1, 2, 3, 0, 4, 5, 6, 0, 0, 0, 0, 0, 0, 0, 0, 0 :: uint16]) = 4 * 4"
proof -
  let ?img = "\<lparr>GetWidth = 3, GetHeight = 2, GetRaw = Some [1, 2, 3, 4, 5, 6]\<rparr>"
  have d: "decoded ?img [1, 2, 3, 4, 5, 6]"
    by (simp add: decoded_def)
  have r: "resize (\<lambda>i. 0) ?img = Inr [1, 2, 3, 0, 4, 5, 6, 0, 0, 0, 0, 0, 0, 0, 0, 0]"
    by code_simp
  have p: "RoundUpToPowerOfTwo 3 = 4"
    by (simp add: RoundUpToPowerOfTwo_def pow2_from.simps)
  from target_size_is_width_rounded [OF d] d r p show ?thesis
    by (simp add: SizeX_def SizeY_def int32_def uint32_def)
qed

lemma int_div_less_side:
  fixes i S :: int
  assumes "0 \<le> i" "i < S * S" "0 < S"
  shows "0 \<le> i div S" and "i div S < S" and "0 \<le> i mod S" and "i mod S < S"
    and "i div S * S + i mod S = i"
proof -
  have e: "i = S * (i div S) + i mod S" by simp
  show m: "0 \<le> i mod S" "i mod S < S" using assms by simp_all
  from e m have le: "S * (i div S) \<le> i" by linarith
  show "i div S < S"
  proof (rule ccontr)
    assume "\<not> i div S < S"
    then have "S * S \<le> S * (i div S)"
      using assms by (intro mult_left_mono) simp_all
    with le assms show False by linarith
  qed
  show "0 \<le> i div S" using assms by (simp add: pos_imp_zdiv_nonneg_iff)
  show "i div S * S + i mod S = i" by (simp add: mult.commute)
qed

text \<open>
  C3. For every decoded image whose height equals its width and whose width is a power
  of two, the resize returns the source samples unchanged, and the target sides are the
  source's.
\<close>

theorem resize_identity_on_pow2_square:
  assumes d: "decoded img src" and sq: "GetHeight img = GetWidth img"
    and p2: "GetWidth img = 2 ^ k"
  shows "resize mem img = Inr src \<and> SizeX img = GetWidth img \<and> SizeY img = GetHeight img"
proof -
  let ?W = "GetWidth img"
  from d have w: "0 < ?W" and len: "int (length src) = ?W * GetHeight img"
    and fit: "2 * (?W * GetHeight img) < 2 ^ 31"
    by (simp_all add: decoded_def)
  have nW: "nat ?W = 2 ^ k" using p2 by (simp add: nat_power_eq)
  have "SizeX img = int (RoundUpToPowerOfTwo (2 ^ k))"
    using SizeX_decoded(1) [OF d] by (simp only: nW)
  then have S: "SizeX img = ?W"
    by (simp add: RoundUpToPowerOfTwo_fix p2)
  have small: "SizeX img * SizeX img < 2 ^ 31"
    using fit sq S by simp
  have "GetHeight img \<le> SizeX img" using sq S by simp
  from resize_total_when_fits [OF d this small] obtain g where r: "resize mem img = Inr g" ..
  have lg: "int (length g) = ?W * ?W"
    using resize_Inr_bounds(3) [OF d r] S by simp
  have "g = src"
  proof (rule nth_equalityI)
    show "length g = length src" using lg len sq by simp
  next
    fix i assume "i < length g"
    then have i: "0 \<le> int i" "int i < ?W * ?W" using lg by simp_all
    note dm = int_div_less_side [OF i w]
    have "g ! nat (int i div ?W * SizeX img + int i mod ?W) =
            src ! nat (int i div ?W * ?W + int i mod ?W)"
      using resize_Inr_cells [OF d r, of "int i div ?W" "int i mod ?W"] dm S sq by simp
    then show "g ! i = src ! i" by (simp add: S dm(5))
  qed
  with r S sq show ?thesis by (simp add: SizeY_def)
qed

theorem resize_identity_on_pow2_square_witness:
  "decoded \<lparr>GetWidth = 2, GetHeight = 2, GetRaw = Some [10, 20, 30, 40]\<rparr> [10, 20, 30, 40] \<and>
   (2::int) = 2 \<and> (2::int) = 2 ^ 1 \<and>
   resize (\<lambda>i. 0) \<lparr>GetWidth = 2, GetHeight = 2, GetRaw = Some [10, 20, 30, 40]\<rparr> =
     Inr [10, 20, 30, 40] \<and>
   SizeX \<lparr>GetWidth = 2, GetHeight = 2, GetRaw = Some [10, 20, 30, 40]\<rparr> = 2 \<and>
   SizeY \<lparr>GetWidth = 2, GetHeight = 2, GetRaw = Some [10, 20, 30, 40]\<rparr> = 2"
proof -
  let ?img = "\<lparr>GetWidth = 2, GetHeight = 2, GetRaw = Some [10, 20, 30, 40]\<rparr>"
  have d: "decoded ?img [10, 20, 30, 40]"
    by (simp add: decoded_def)
  from resize_identity_on_pow2_square [OF d, of 1] d show ?thesis
    by simp
qed

text \<open>
  C5. For every decoded image and the grid that the resize returns for it, every cell of
  the grid in a row at or beyond the source height, or in a column at or beyond the
  source width, is a cell of the grid and holds zero.
\<close>

theorem padding_cells_zero:
  assumes "decoded img src" and "resize mem img = Inr g"
    and "0 \<le> row" "row < SizeY img" "0 \<le> col" "col < SizeX img"
    and "GetHeight img \<le> row \<or> GetWidth img \<le> col"
  shows "nat (row * SizeX img + col) < length g \<and> g ! nat (row * SizeX img + col) = 0"
proof -
  let ?S = "SizeX img"
  have rw: "row < ?S" using assms(4) by (simp add: SizeY_def)
  have S0: "0 \<le> ?S" using assms by simp
  have "(row + 1) * ?S \<le> ?S * ?S"
    using rw S0 by (intro mult_right_mono) simp_all
  then have "row * ?S + col < ?S * ?S"
    using assms(6) by (simp add: algebra_simps)
  moreover have "0 \<le> row * ?S" using assms(3) S0 by simp
  ultimately have "nat (row * ?S + col) < length g"
    using resize_Inr_bounds(3) [OF assms(1,2)] assms(5) by linarith
  moreover have "g ! nat (row * ?S + col) = 0"
    using resize_Inr_cells [OF assms(1,2,3) rw assms(5,6)] assms(7) by auto
  ultimately show ?thesis ..
qed

theorem padding_cells_zero_witness:
  "decoded \<lparr>GetWidth = 3, GetHeight = 1, GetRaw = Some [11, 12, 13]\<rparr> [11, 12, 13] \<and>
   resize (\<lambda>i. 0) \<lparr>GetWidth = 3, GetHeight = 1, GetRaw = Some [11, 12, 13]\<rparr> =
     Inr [11, 12, 13, 0, 0, 0, 0, 0, 0, 0, 0, 0, 0, 0, 0, 0] \<and>
   SizeX \<lparr>GetWidth = 3, GetHeight = 1, GetRaw = Some [11, 12, 13]\<rparr> = 4 \<and>
   [11, 12, 13, 0, 0, 0, 0, 0, 0, 0, 0, 0, 0, 0, 0, 0 :: uint16] ! nat (2 * 4 + 1) = 0 \<and>
   [11, 12, 13, 0, 0, 0, 0, 0, 0, 0, 0, 0, 0, 0, 0, 0 :: uint16] ! nat (0 * 4 + 3) = 0"
proof -
  let ?img = "\<lparr>GetWidth = 3, GetHeight = 1, GetRaw = Some [11, 12, 13]\<rparr>"
  let ?g = "[11, 12, 13, 0, 0, 0, 0, 0, 0, 0, 0, 0, 0, 0, 0, 0 :: uint16]"
  have d: "decoded ?img [11, 12, 13]"
    by (simp add: decoded_def)
  have r: "resize (\<lambda>i. 0) ?img = Inr ?g"
    by code_simp
  have s: "SizeX ?img = 4" "SizeY ?img = 4"
    by (simp_all add: SizeY_def SizeX_def RoundUpToPowerOfTwo_def pow2_from.simps int32_def
        uint32_def)
  have "?g ! nat (2 * SizeX ?img + 1) = 0"
    using padding_cells_zero [OF d r, of 2 1] s by simp
  moreover have "?g ! nat (0 * SizeX ?img + 3) = 0"
    using padding_cells_zero [OF d r, of 0 3] s by simp
  ultimately show ?thesis using d r s by simp
qed

section \<open>The claims about the parameters and the whole function\<close>

text \<open>
  C6. For every grid side of at least 1 (an \<^verbatim>\<open>int32\<close>), the component size is
  \<open>max 63 (gridSize - 1)\<close>, the subsection size equals the component size, and the
  number of subsections is 1.
\<close>

theorem terrain_params_from_grid_size:
  assumes "1 \<le> gridSize" and "gridSize < 2 ^ 31"
  shows "ComponentQuads gridSize = max 63 (gridSize - 1) \<and>
         SubsectionQuads gridSize = ComponentQuads gridSize \<and>
         NumSubsections = 1"
proof -
  have "int32 (gridSize - 1) = gridSize - 1"
    by (rule int32_id) (use assms in linarith)+
  then show ?thesis
    by (simp add: ComponentQuads_def SubsectionQuads_def NumSubsections_def)
qed

theorem terrain_params_from_grid_size_witness:
  "(1::int) \<le> 1 \<and> (1::int) < 2 ^ 31 \<and> ComponentQuads 1 = 63 \<and> SubsectionQuads 1 = 63 \<and>
   (1::int) \<le> 128 \<and> (128::int) < 2 ^ 31 \<and> ComponentQuads 128 = 127 \<and>
   SubsectionQuads 128 = 127 \<and> NumSubsections = 1"
  using terrain_params_from_grid_size [of 1] terrain_params_from_grid_size [of 128]
  by simp

lemma GenerateLandscape_created:
  assumes "GenerateLandscape fp host path World NumBlocks = (calls, Inr L)"
  shows "\<exists>world RawFileData ImageWrapper HeightData.
           World = Some world \<and> SpawnActor world \<and>
           LoadFileToArray host path = Some RawFileData \<and>
           CreateImageWrapper_IsValid host \<and>
           SetCompressed host RawFileData = Some ImageWrapper \<and>
           resize (Memory host) ImageWrapper = Inr HeightData \<and>
           L = configure_landscape fp host ImageWrapper HeightData NumBlocks"
  using assms
  by (auto simp: GenerateLandscape_def open_image_def
      split: option.splits prod.splits sum.splits if_splits)

text \<open>
  C8. With a null world the function returns at once: it has made no engine call (no
  file read, no image parsed) and logged nothing, whatever the engine, the path and the
  block count, and it hands over no landscape.
\<close>

theorem no_world_no_work:
  "GenerateLandscape fp host CombinedAbsoluteFilePath None NumBlocks = ([], Inl NoWorld)"
  by (simp add: GenerateLandscape_def)

text \<open>
  C9. Each decode failure ends the function with the failure of its own cause, and the
  whole run is the listed calls and the one error line: a file that cannot be loaded gives
  \<open>LoadFileFailed\<close> after the load attempt; an invalid wrapper, or a wrapper that rejects the
  bytes, gives \<open>ImageWrapperFailed\<close>; raw 16-bit grayscale data that cannot be extracted gives
  \<open>GetRawFailed\<close> after the size line. In none of the runs is there a scale line, a
  \<^verbatim>\<open>SpawnActor\<close>, a \<^verbatim>\<open>SetActorScale3D\<close>, an \<^verbatim>\<open>Import\<close> or a \<^verbatim>\<open>CreateLandscapeInfo\<close>, and no
  landscape is handed over.
\<close>

theorem decode_failure_is_terminal:
  "(LoadFileToArray host path = None \<longrightarrow>
      GenerateLandscape fp host path (Some world) NumBlocks =
        ([Call_LoadFileToArray path, Log_Error ''Failed to load height map file''],
         Inl LoadFileFailed)) \<and>
   (LoadFileToArray host path = Some RawFileData \<and> \<not> CreateImageWrapper_IsValid host \<longrightarrow>
      GenerateLandscape fp host path (Some world) NumBlocks =
        ([Call_LoadFileToArray path, Call_CreateImageWrapper,
          Log_Error ''Failed to create image wrapper for height map''],
         Inl ImageWrapperFailed)) \<and>
   (LoadFileToArray host path = Some RawFileData \<and> CreateImageWrapper_IsValid host \<and>
    SetCompressed host RawFileData = None \<longrightarrow>
      GenerateLandscape fp host path (Some world) NumBlocks =
        ([Call_LoadFileToArray path, Call_CreateImageWrapper, Call_SetCompressed RawFileData,
          Log_Error ''Failed to create image wrapper for height map''],
         Inl ImageWrapperFailed)) \<and>
   (LoadFileToArray host path = Some RawFileData \<and> CreateImageWrapper_IsValid host \<and>
    SetCompressed host RawFileData = Some ImageWrapper \<and> GetRaw ImageWrapper = None \<longrightarrow>
      GenerateLandscape fp host path (Some world) NumBlocks =
        ([Call_LoadFileToArray path, Call_CreateImageWrapper, Call_SetCompressed RawFileData,
          Log_Info ''Original size, adjusted to power of two'', Call_GetRaw,
          Log_Error ''Failed to get raw height map data''],
         Inl GetRawFailed))"
  by (simp add: GenerateLandscape_def open_image_def resize_def)

theorem decode_failure_is_terminal_witness:
  "LoadFileToArray (example_host 1 ''a.png'' True (Some example_image) 5) ''missing.png'' = None \<and>
   GenerateLandscape f32_ops (example_host 1 ''a.png'' True (Some example_image) 5)
       ''missing.png'' (Some \<lparr>SpawnActor = True\<rparr>) 4 =
     ([Call_LoadFileToArray ''missing.png'', Log_Error ''Failed to load height map file''],
      Inl LoadFileFailed) \<and>
   LoadFileToArray (example_host 1 ''a.png'' False (Some example_image) 5) ''a.png'' =
     Some [137, 80, 78, 71] \<and>
   \<not> CreateImageWrapper_IsValid (example_host 1 ''a.png'' False (Some example_image) 5) \<and>
   GenerateLandscape f32_ops (example_host 1 ''a.png'' False (Some example_image) 5)
       ''a.png'' (Some \<lparr>SpawnActor = True\<rparr>) 4 =
     ([Call_LoadFileToArray ''a.png'', Call_CreateImageWrapper,
       Log_Error ''Failed to create image wrapper for height map''],
      Inl ImageWrapperFailed) \<and>
   SetCompressed (example_host 1 ''a.png'' True None 5) [137, 80, 78, 71] = None \<and>
   GenerateLandscape f32_ops (example_host 1 ''a.png'' True None 5)
       ''a.png'' (Some \<lparr>SpawnActor = True\<rparr>) 4 =
     ([Call_LoadFileToArray ''a.png'', Call_CreateImageWrapper,
       Call_SetCompressed [137, 80, 78, 71],
       Log_Error ''Failed to create image wrapper for height map''],
      Inl ImageWrapperFailed) \<and>
   SetCompressed
       (example_host 1 ''a.png'' True (Some \<lparr>GetWidth = 2, GetHeight = 2, GetRaw = None\<rparr>) 5)
       [137, 80, 78, 71] =
     Some \<lparr>GetWidth = 2, GetHeight = 2, GetRaw = None\<rparr> \<and>
   GenerateLandscape f32_ops
       (example_host 1 ''a.png'' True (Some \<lparr>GetWidth = 2, GetHeight = 2, GetRaw = None\<rparr>) 5)
       ''a.png'' (Some \<lparr>SpawnActor = True\<rparr>) 4 =
     ([Call_LoadFileToArray ''a.png'', Call_CreateImageWrapper,
       Call_SetCompressed [137, 80, 78, 71],
       Log_Info ''Original size, adjusted to power of two'', Call_GetRaw,
       Log_Error ''Failed to get raw height map data''],
      Inl GetRawFailed)"
proof -
  let ?w = "\<lparr>SpawnActor = True\<rparr>"
  let ?b = "[137, 80, 78, 71] :: uint8 list"
  let ?noraw = "\<lparr>GetWidth = 2, GetHeight = 2, GetRaw = None\<rparr>"
  let ?h1 = "example_host 1 ''a.png'' True (Some example_image) 5"
  let ?h2 = "example_host 1 ''a.png'' False (Some example_image) 5"
  let ?h3 = "example_host 1 ''a.png'' True None 5"
  let ?h4 = "example_host 1 ''a.png'' True (Some ?noraw) 5"
  have c1: "LoadFileToArray ?h1 ''missing.png'' = None"
    by (simp add: example_host_def)
  have c2: "LoadFileToArray ?h2 ''a.png'' = Some ?b" "\<not> CreateImageWrapper_IsValid ?h2"
    by (simp_all add: example_host_def)
  have c3: "LoadFileToArray ?h3 ''a.png'' = Some ?b" "CreateImageWrapper_IsValid ?h3"
    "SetCompressed ?h3 ?b = None"
    by (simp_all add: example_host_def)
  have c4: "LoadFileToArray ?h4 ''a.png'' = Some ?b" "CreateImageWrapper_IsValid ?h4"
    "SetCompressed ?h4 ?b = Some ?noraw" "GetRaw ?noraw = None"
    by (simp_all add: example_host_def)
  from decode_failure_is_terminal
    [where host = ?h1 and path = "''missing.png''" and fp = f32_ops and world = ?w and NumBlocks = 4] c1
  have r1: "GenerateLandscape f32_ops ?h1 ''missing.png'' (Some ?w) 4 =
     ([Call_LoadFileToArray ''missing.png'', Log_Error ''Failed to load height map file''],
      Inl LoadFileFailed)"
    by blast
  from decode_failure_is_terminal
    [where host = ?h2 and path = "''a.png''" and fp = f32_ops and world = ?w and NumBlocks = 4
      and RawFileData = ?b] c2
  have r2: "GenerateLandscape f32_ops ?h2 ''a.png'' (Some ?w) 4 =
     ([Call_LoadFileToArray ''a.png'', Call_CreateImageWrapper,
       Log_Error ''Failed to create image wrapper for height map''],
      Inl ImageWrapperFailed)"
    by blast
  from decode_failure_is_terminal
    [where host = ?h3 and path = "''a.png''" and fp = f32_ops and world = ?w and NumBlocks = 4
      and RawFileData = ?b] c3
  have r3: "GenerateLandscape f32_ops ?h3 ''a.png'' (Some ?w) 4 =
     ([Call_LoadFileToArray ''a.png'', Call_CreateImageWrapper, Call_SetCompressed ?b,
       Log_Error ''Failed to create image wrapper for height map''],
      Inl ImageWrapperFailed)"
    by blast
  from decode_failure_is_terminal
    [where host = ?h4 and path = "''a.png''" and fp = f32_ops and world = ?w and NumBlocks = 4
      and RawFileData = ?b and ImageWrapper = ?noraw] c4
  have r4: "GenerateLandscape f32_ops ?h4 ''a.png'' (Some ?w) 4 =
     ([Call_LoadFileToArray ''a.png'', Call_CreateImageWrapper, Call_SetCompressed ?b,
       Log_Info ''Original size, adjusted to power of two'', Call_GetRaw,
       Log_Error ''Failed to get raw height map data''],
      Inl GetRawFailed)"
    by blast
  from c1 c2 c3 c4 r1 r2 r3 r4 show ?thesis by blast
qed

text \<open>
  C10. Two runs with the same file bytes, the same decoder and the same block count, each
  in a world that spawns the actor, where the decoder hands over one sample per pixel,
  stop with the same failure or build landscapes with the same height grid, component
  size, subsection size, subsection count, horizontal scale and vertical scale, whatever
  the paths, the rest of the file systems, the worlds, the identifiers drawn and the
  memory around the raw buffer. The vertical scale is the literal 25, and the horizontal
  scale is the literal 50000 times the block grid side, divided by a grid side.
\<close>

theorem GenerateLandscape_deterministic:
  assumes "LoadFileToArray host1 path1 = LoadFileToArray host2 path2"
    and "CreateImageWrapper_IsValid host1 = CreateImageWrapper_IsValid host2"
    and "SetCompressed host1 = SetCompressed host2"
    and "SpawnActor world1" and "SpawnActor world2"
    and "\<And>RawFileData ImageWrapper RawImageData.
           LoadFileToArray host1 path1 = Some RawFileData \<Longrightarrow>
           SetCompressed host1 RawFileData = Some ImageWrapper \<Longrightarrow>
           GetRaw ImageWrapper = Some RawImageData \<Longrightarrow>
           decoded ImageWrapper RawImageData"
  shows "map_sum id terrain_values
           (snd (GenerateLandscape fp host1 path1 (Some world1) NumBlocks)) =
         map_sum id terrain_values
           (snd (GenerateLandscape fp host2 path2 (Some world2) NumBlocks)) \<and>
         (\<forall>L. snd (GenerateLandscape fp host1 path1 (Some world1) NumBlocks) = Inr L \<longrightarrow>
            snd (snd (ActorScale3D L)) = FloatLiteral fp 25 \<and>
            (\<exists>size_x. fst (ActorScale3D L) =
              FloatDiv fp
                (FloatMul fp (FloatLiteral fp 50000) (FloatOfInt32 fp (GridSize fp NumBlocks)))
                (FloatOfInt32 fp size_x)))"
proof (intro conjI allI impI)
  have o: "open_image host1 = open_image host2"
    using assms(2,3) by (simp add: open_image_def fun_eq_iff)
  have t: "terrain_values (configure_landscape fp host1 img g NumBlocks) =
           terrain_values (configure_landscape fp host2 img g NumBlocks)" for img g
    by (simp add: terrain_values_def configure_landscape_def)
  have m: "resize (Memory host1) img = resize (Memory host2) img"
    if "LoadFileToArray host1 path1 = Some bytes" "open_image host1 bytes = (calls, Some img)"
    for bytes calls img
  proof (cases "GetRaw img")
    case None
    then show ?thesis by (simp add: resize_def)
  next
    case (Some src)
    from that(2) have "SetCompressed host1 bytes = Some img"
      by (simp add: open_image_def split: if_splits)
    from assms(6) [OF that(1) this Some] show ?thesis
      by (rule resize_memory)
  qed
  show "map_sum id terrain_values
           (snd (GenerateLandscape fp host1 path1 (Some world1) NumBlocks)) =
         map_sum id terrain_values
           (snd (GenerateLandscape fp host2 path2 (Some world2) NumBlocks))"
  proof (cases "LoadFileToArray host1 path1")
    case None
    with assms(1) show ?thesis by (simp add: GenerateLandscape_def)
  next
    case (Some bytes)
    obtain calls w where oi: "open_image host1 bytes = (calls, w)"
      by (cases "open_image host1 bytes")
    show ?thesis
    proof (cases w)
      case None
      with Some assms(1) oi o show ?thesis
        by (simp add: GenerateLandscape_def)
    next
      case (Some img)
      with oi have oi': "open_image host1 bytes = (calls, Some img)" by simp
      note mm = m [OF \<open>LoadFileToArray host1 path1 = Some bytes\<close> oi']
      from \<open>LoadFileToArray host1 path1 = Some bytes\<close> assms(1)
      have l2: "LoadFileToArray host2 path2 = Some bytes" by simp
      from oi' o have oi2: "open_image host2 bytes = (calls, Some img)" by simp
      show ?thesis
        using assms(4,5) t
        by (simp add: GenerateLandscape_def \<open>LoadFileToArray host1 path1 = Some bytes\<close> l2
            oi' oi2 mm [symmetric] split: sum.splits)
    qed
  qed
next
  fix L
  assume "snd (GenerateLandscape fp host1 path1 (Some world1) NumBlocks) = Inr L"
  then have "GenerateLandscape fp host1 path1 (Some world1) NumBlocks =
      (fst (GenerateLandscape fp host1 path1 (Some world1) NumBlocks), Inr L)"
    by (simp add: prod_eq_iff)
  from GenerateLandscape_created [OF this]
  obtain img g where L: "L = configure_landscape fp host1 img g NumBlocks"
    by blast
  show "snd (snd (ActorScale3D L)) = FloatLiteral fp 25"
    by (simp add: L configure_landscape_def VerticalScaleFactor_def DesiredScale_def)
  show "\<exists>size_x. fst (ActorScale3D L) =
          FloatDiv fp
            (FloatMul fp (FloatLiteral fp 50000) (FloatOfInt32 fp (GridSize fp NumBlocks)))
            (FloatOfInt32 fp size_x)"
    by (auto simp: L configure_landscape_def HorizontalScaleFactor_def
        TotalSizeInUnrealUnits_def BlockSizeInUnrealUnits_def)
qed

theorem GenerateLandscape_deterministic_witness:
  "LoadFileToArray (example_host 1 ''a.png'' True (Some example_image) 5) ''a.png'' =
     LoadFileToArray (example_host 2 ''b.png'' True (Some example_image) 9) ''b.png'' \<and>
   CreateImageWrapper_IsValid (example_host 1 ''a.png'' True (Some example_image) 5) =
     CreateImageWrapper_IsValid (example_host 2 ''b.png'' True (Some example_image) 9) \<and>
   SetCompressed (example_host 1 ''a.png'' True (Some example_image) 5) =
     SetCompressed (example_host 2 ''b.png'' True (Some example_image) 9) \<and>
   SpawnActor \<lparr>SpawnActor = True\<rparr> \<and>
   decoded example_image [10, 20, 30, 40] \<and>
   Memory (example_host 1 ''a.png'' True (Some example_image) 5) \<noteq>
     Memory (example_host 2 ''b.png'' True (Some example_image) 9) \<and>
   snd (GenerateLandscape f32_ops (example_host 1 ''a.png'' True (Some example_image) 5)
          ''a.png'' (Some \<lparr>SpawnActor = True\<rparr>) 4) =
     Inr (configure_landscape f32_ops (example_host 1 ''a.png'' True (Some example_image) 5)
            example_image [10, 20, 30, 40] 4) \<and>
   map_sum id terrain_values
     (snd (GenerateLandscape f32_ops (example_host 1 ''a.png'' True (Some example_image) 5)
             ''a.png'' (Some \<lparr>SpawnActor = True\<rparr>) 4)) =
   map_sum id terrain_values
     (snd (GenerateLandscape f32_ops (example_host 2 ''b.png'' True (Some example_image) 9)
             ''b.png'' (Some \<lparr>SpawnActor = True\<rparr>) 4)) \<and>
   snd (snd (ActorScale3D
     (configure_landscape f32_ops (example_host 1 ''a.png'' True (Some example_image) 5)
        example_image [10, 20, 30, 40] 4))) = 25"
proof -
  let ?h1 = "example_host 1 ''a.png'' True (Some example_image) 5"
  let ?h2 = "example_host 2 ''b.png'' True (Some example_image) 9"
  let ?w = "\<lparr>SpawnActor = True\<rparr>"
  have a1: "LoadFileToArray ?h1 ''a.png'' = LoadFileToArray ?h2 ''b.png''"
    and a2: "CreateImageWrapper_IsValid ?h1 = CreateImageWrapper_IsValid ?h2"
    and a3: "SetCompressed ?h1 = SetCompressed ?h2"
    and a4: "SpawnActor ?w"
    by (simp_all add: example_host_def)
  have d: "decoded example_image [10, 20, 30, 40]"
    by (simp add: decoded_def example_image_def)
  have a6: "decoded ImageWrapper RawImageData"
    if "LoadFileToArray ?h1 ''a.png'' = Some RawFileData"
      "SetCompressed ?h1 RawFileData = Some ImageWrapper"
      "GetRaw ImageWrapper = Some RawImageData"
    for RawFileData ImageWrapper RawImageData
  proof -
    from that(1,2) have "ImageWrapper = example_image"
      by (simp add: example_host_def split: if_splits)
    with that(3) d show ?thesis by (simp add: example_image_def)
  qed
  have ne: "Memory ?h1 \<noteq> Memory ?h2"
    by (simp add: example_host_def fun_eq_iff)
  have r: "resize (\<lambda>i. 5) example_image = Inr [10, 20, 30, 40]"
    unfolding example_image_def by code_simp
  have run: "snd (GenerateLandscape f32_ops ?h1 ''a.png'' (Some ?w) 4) =
     Inr (configure_landscape f32_ops ?h1 example_image [10, 20, 30, 40] 4)"
    by (simp add: GenerateLandscape_def open_image_def example_host_def r)
  have lit: "FloatLiteral f32_ops 25 = 25"
    using f32_of_int [of 25] by (simp add: f32_ops_def)
  from GenerateLandscape_deterministic
      [where fp = f32_ops and NumBlocks = 4, OF a1 a2 a3 a4 a4 a6]
    a1 a2 a3 a4 d ne run lit
  show ?thesis by simp
qed

section \<open>The claim about the horizontal scale\<close>




end
